theory Spec2Isabelle
  imports Main "HOL-Library.AList"
begin

section \<open>JavaScript values, objects and JSON texts\<close>

text \<open>
  The values that the session layer puts into its records: \<open>undefined\<close>, \<open>null\<close>,
  booleans, integral numbers (timestamps), strings and nested plain objects. An object is
  an association list in insertion order, as JavaScript keeps its own properties. This is
  the value universe of every statement below; \<open>NaN\<close> and the infinities, \<open>BigInt\<close>, arrays,
  dates, functions, symbols and cyclic objects are outside it.
\<close>

datatype jsval =
    JUndefined
  | JNull
  | JBool bool
  | JNum int
  | JStr string
  | JObj "(string \<times> jsval) list"

type_synonym obj = "(string \<times> jsval) list"

text \<open>Reading a property: a missing property reads as \<open>undefined\<close>.\<close>

definition get_prop :: "obj \<Rightarrow> string \<Rightarrow> jsval" where
  "get_prop ob k = (case map_of ob k of None \<Rightarrow> JUndefined | Some v \<Rightarrow> v)"

definition has_prop :: "obj \<Rightarrow> string \<Rightarrow> bool" where
  "has_prop ob k = (map_of ob k \<noteq> None)"

text \<open>Assigning a property keeps the position of an existing key and appends a new one.\<close>

definition set_prop :: "string \<Rightarrow> jsval \<Rightarrow> obj \<Rightarrow> obj" where
  "set_prop k v ob = AList.update k v ob"

text \<open>The spread \<open>{...base, ...extra}\<close>: the properties of \<open>extra\<close> are assigned in order.\<close>

definition spread :: "obj \<Rightarrow> obj \<Rightarrow> obj" where
  "spread base extra = foldl (\<lambda>ob kv. set_prop (fst kv) (snd kv) ob) base extra"

text \<open>JavaScript truthiness, as used by \<open>!x\<close>, \<open>x || y\<close> and \<open>if (x)\<close>.\<close>

fun truthy :: "jsval \<Rightarrow> bool" where
  "truthy JUndefined = False"
| "truthy JNull = False"
| "truthy (JBool b) = b"
| "truthy (JNum n) = (n \<noteq> 0)"
| "truthy (JStr s) = (s \<noteq> [])"
| "truthy (JObj ps) = True"

text \<open>Decimal digits of a number, for \<open>Date.now()\<close> inside a template literal.\<close>

fun decimal :: "nat \<Rightarrow> string" where
  "decimal n = (if n < 10 then [char_of (48 + n)]
                else decimal (n div 10) @ [char_of (48 + n mod 10)])"

declare decimal.simps [simp del]

text \<open>The string a template literal \<open>`${v}`\<close> produces.\<close>

fun to_string :: "jsval \<Rightarrow> string" where
  "to_string JUndefined = ''undefined''"
| "to_string JNull = ''null''"
| "to_string (JBool b) = (if b then ''true'' else ''false'')"
| "to_string (JNum n) = (if n < 0 then CHR ''-'' # decimal (nat (- n)) else decimal (nat n))"
| "to_string (JStr s) = s"
| "to_string (JObj ps) = ''[object Object]''"

text \<open>
  \<open>JSON.stringify\<close> followed by \<open>JSON.parse\<close> reads back the value with every
  \<open>undefined\<close>-valued property left out, at every depth. \<open>json_of\<close> is that value.
\<close>

fun json_of :: "jsval \<Rightarrow> jsval" where
  "json_of (JObj ps) =
     JObj (map (\<lambda>kv. (fst kv, json_of (snd kv))) (filter (\<lambda>kv. snd kv \<noteq> JUndefined) ps))"
| "json_of v = v"

text \<open>
  A stored text. The stores hold strings; a string that is the serialisation of a JSON
  value is represented by that value (\<open>JsonText\<close>), any other string by its characters
  (\<open>RawText\<close>), so \<open>JSON.parse\<close> succeeds on the first and throws on the second.
\<close>

datatype stored = JsonText jsval | RawText string

definition JSON_stringify :: "jsval \<Rightarrow> stored" where
  "JSON_stringify v = (if v = JUndefined then RawText ''undefined'' else JsonText (json_of v))"

fun JSON_parse :: "stored \<Rightarrow> jsval option" where
  "JSON_parse (JsonText v) = Some v"
| "JSON_parse (RawText s) = None"

text \<open>A string is falsy exactly when it is empty; a JSON text is never empty.\<close>

fun stored_truthy :: "stored \<Rightarrow> bool" where
  "stored_truthy (JsonText v) = True"
| "stored_truthy (RawText s) = (s \<noteq> [])"

section \<open>The browser state of one tab\<close>

text \<open>
  A key-value store (\<open>localStorage\<close>, \<open>sessionStorage\<close>) is an association list
  with one entry per key; \<open>Object.keys\<close> lists its keys.
\<close>

definition getItem :: "string \<Rightarrow> (string \<times> 'v) list \<Rightarrow> 'v option" where
  "getItem k st = map_of st k"

definition setItem :: "string \<Rightarrow> 'v \<Rightarrow> (string \<times> 'v) list \<Rightarrow> (string \<times> 'v) list" where
  "setItem k v st = AList.update k v st"

definition removeItem :: "string \<Rightarrow> (string \<times> 'v) list \<Rightarrow> (string \<times> 'v) list" where
  "removeItem k st = filter (\<lambda>kv. fst kv \<noteq> k) st"

definition store_keys :: "(string \<times> 'v) list \<Rightarrow> string list" where
  "store_keys st = map fst st"

text \<open>
  The callbacks that the modelled code hands to \<open>setTimeout\<close>: the two flag removals of
  the tab-switch utility and the delayed session check of the auth context. The session
  check is a closure of the render that scheduled it and carries the \<open>user\<close> of that render.
\<close>

datatype callback =
    RemovePreventRefresh
  | ClearReturning
  | Revalidate jsval

text \<open>
  \<open>window.fetch\<close> is the native primitive or a closure that an installer put around the
  previous value of \<open>window.fetch\<close>.
\<close>

datatype fetch_impl =
    NativeFetch
  | TokenWrapper fetch_impl
  | SwitchWrapper fetch_impl

text \<open>
  The state of one tab: the window (absent during server-side rendering), the clock read by
  \<open>Date.now()\<close>, the next value of \<open>Math.random().toString(36).slice(2, 11)\<close>, the location,
  the configured \<open>NEXT_PUBLIC_SUPABASE_URL\<close>, the two stores, the class list of the body, the
  pending timers with their due times, the number of registered \<open>visibilitychange\<close>
  listeners of the utility, \<open>window.fetch\<close>, and the React state of the auth provider
  (\<open>user\<close>, \<open>isLoading\<close>). \<open>revalidating\<close> lists the session checks that wait for the
  remote answer, each by the \<open>user\<close> its closure captured; \<open>reload_in\<close> is the delay of a
  scheduled page reload.
\<close>

record browser =
  has_window :: bool
  clock :: nat
  random_suffix :: string
  pathname :: string
  origin :: string
  supabase_url :: "string option"
  visible :: bool
  localStorage :: "(string \<times> stored) list"
  localStorage_full :: bool
  sessionStorage :: "(string \<times> string) list"
  body_classes :: "string list"
  timers :: "(nat \<times> callback) list"
  visibility_listeners :: nat
  window_fetch :: fetch_impl
  user :: jsval
  isLoading :: bool
  revalidating :: "jsval list"
  reload_in :: "nat option"

section \<open>The tab-switch utility\<close>

definition TAB_STATE_KEY :: string where "TAB_STATE_KEY = ''aditi_tab_state''"
definition RETURNING_FLAG :: string where "RETURNING_FLAG = ''returning_from_tab_switch''"
definition PREVENT_REFRESH :: string where "PREVENT_REFRESH = ''prevent_auto_refresh''"
definition TAB_ACTIVE_CLASS :: string where "TAB_ACTIVE_CLASS = ''tab-just-activated''"
definition TAB_ID_KEY :: string where "TAB_ID_KEY = ''aditi_tab_id''"
definition AUTH_TOKEN_KEY :: string where "AUTH_TOKEN_KEY = ''aditi_supabase_auth''"

text \<open>
  \<open>getTabId\<close>: the empty string without a window; otherwise the stored identifier, or a
  fresh one (\<open>tab_<Date.now()>_<random>\<close>) that is stored first. An empty stored string is
  falsy and is replaced like a missing one.
\<close>

definition getTabId :: "browser \<Rightarrow> string \<times> browser" where
  "getTabId b =
     (if \<not> has_window b then ('''', b)
      else case getItem TAB_ID_KEY (sessionStorage b) of
             Some t \<Rightarrow>
               if t \<noteq> [] then (t, b)
               else (let tabId = ''tab_'' @ decimal (clock b) @ ''_'' @ random_suffix b
                     in (tabId, b\<lparr>sessionStorage := setItem TAB_ID_KEY tabId (sessionStorage b)\<rparr>))
           | None \<Rightarrow>
               (let tabId = ''tab_'' @ decimal (clock b) @ ''_'' @ random_suffix b
                in (tabId, b\<lparr>sessionStorage := setItem TAB_ID_KEY tabId (sessionStorage b)\<rparr>)))"

text \<open>
  \<open>getAuthToken\<close>: \<open>parsedData?.access_token || null\<close>, and \<open>null\<close> without a window, on a
  missing or empty entry, and on a parse error.
\<close>

definition getAuthToken :: "browser \<Rightarrow> jsval" where
  "getAuthToken b =
     (if \<not> has_window b then JNull
      else case getItem AUTH_TOKEN_KEY (localStorage b) of
             None \<Rightarrow> JNull
           | Some authData \<Rightarrow>
               if \<not> stored_truthy authData then JNull
               else (case JSON_parse authData of
                       None \<Rightarrow> JNull
                     | Some parsedData \<Rightarrow>
                         (let access_token =
                                (case parsedData of JObj ps \<Rightarrow> get_prop ps ''access_token''
                                 | _ \<Rightarrow> JUndefined)
                          in if truthy access_token then access_token else JNull)))"

text \<open>
  \<open>localStorage.setItem\<close> throws when the store refuses the write (quota); \<open>None\<close> is
  that exception.
\<close>

definition local_setItem :: "string \<Rightarrow> stored \<Rightarrow> browser \<Rightarrow> browser option" where
  "local_setItem k v b =
     (if localStorage_full b then None
      else Some (b\<lparr>localStorage := setItem k v (localStorage b)\<rparr>))"

text \<open>
  \<open>saveTabState\<close>: the record literal with \<open>additionalData\<close> spread last, serialised into
  the durable store; an exception of the write is swallowed. The identifier that
  \<open>getTabId\<close> created stays in the volatile store either way.
\<close>

definition tabState_of :: "browser \<Rightarrow> obj \<Rightarrow> obj \<times> browser" where
  "tabState_of b additionalData =
     (let (tabId, b1) = getTabId b
      in (spread [(''tabId'', JStr tabId),
                  (''lastActive'', JNum (int (clock b1))),
                  (''route'', JStr (pathname b1)),
                  (''authToken'', getAuthToken b1)] additionalData, b1))"

definition saveTabState :: "obj \<Rightarrow> browser \<Rightarrow> browser" where
  "saveTabState additionalData b =
     (if \<not> has_window b then b
      else (let (tabState, b1) = tabState_of b additionalData
            in case local_setItem TAB_STATE_KEY (JSON_stringify (JObj tabState)) b1 of
                 None \<Rightarrow> b1
               | Some b2 \<Rightarrow> b2))"


text \<open>\<open>isReturningFromTabSwitch\<close>: a flag in the volatile store or a marker class on the body.\<close>

definition string_truthy :: "string option \<Rightarrow> bool" where
  "string_truthy r = (case r of None \<Rightarrow> False | Some x \<Rightarrow> x \<noteq> [])"

definition isReturningFromTabSwitch :: "browser \<Rightarrow> bool" where
  "isReturningFromTabSwitch b =
     (if \<not> has_window b then False
      else string_truthy (getItem RETURNING_FLAG (sessionStorage b))
         \<or> string_truthy (getItem PREVENT_REFRESH (sessionStorage b))
         \<or> TAB_ACTIVE_CLASS \<in> set (body_classes b)
         \<or> ''dashboard-tab-active'' \<in> set (body_classes b))"

text \<open>\<open>setTimeout(cb, delay)\<close>: the callback becomes due \<open>delay\<close> milliseconds from now.\<close>

definition setTimeout :: "callback \<Rightarrow> nat \<Rightarrow> browser \<Rightarrow> browser" where
  "setTimeout cb delay b = b\<lparr>timers := timers b @ [(clock b + delay, cb)]\<rparr>"

text \<open>
  \<open>preventNextTabSwitchRefresh\<close>: sets the flag to the current time, writes a three-field
  tab record (an exception of the write is swallowed) and schedules the removal of the
  flag after five seconds.
\<close>

definition preventNextTabSwitchRefresh :: "browser \<Rightarrow> browser" where
  "preventNextTabSwitchRefresh b =
     (if \<not> has_window b then b
      else (let b1 = b\<lparr>sessionStorage := setItem PREVENT_REFRESH (decimal (clock b)) (sessionStorage b)\<rparr>;
                (tabId, b2) = getTabId b1;
                tabState = [(''tabId'', JStr tabId),
                            (''lastActive'', JNum (int (clock b2))),
                            (''route'', JStr (pathname b2))];
                b3 = (case local_setItem TAB_STATE_KEY (JSON_stringify (JObj tabState)) b2 of
                        None \<Rightarrow> b2
                      | Some b' \<Rightarrow> b')
            in setTimeout RemovePreventRefresh 5000 b3))"

section \<open>The fetch wrappers\<close>

text \<open>\<open>String.prototype.startsWith\<close> and \<open>includes\<close>.\<close>

fun startsWith :: "string \<Rightarrow> string \<Rightarrow> bool" where
  "startsWith s [] = True"
| "startsWith [] (p # ps) = False"
| "startsWith (c # cs) (p # ps) = (c = p \<and> startsWith cs ps)"

fun includes_str :: "string \<Rightarrow> string \<Rightarrow> bool" where
  "includes_str [] sub = (sub = [])"
| "includes_str (c # cs) sub = (startsWith (c # cs) sub \<or> includes_str cs sub)"

text \<open>Header names are compared in lower case.\<close>

definition lower_char :: "char \<Rightarrow> char" where
  "lower_char c =
     (let n = (of_char c :: nat) in if 65 \<le> n \<and> n \<le> 90 then char_of (n + 32) else c)"

definition lowercase :: "string \<Rightarrow> string" where
  "lowercase s = map lower_char s"

text \<open>
  The first argument of \<open>fetch\<close>: a string, a \<open>URL\<close> (its \<open>href\<close>) or a \<open>Request\<close> (its
  \<open>url\<close>). The \<open>headers\<close> of an init object are a plain record or a \<open>Headers\<close> instance,
  whose names are stored in lower case.
\<close>

datatype request_info = ReqString string | ReqURL string | ReqObject string

datatype headers_init =
    HeadersRecord "(string \<times> string) list"
  | HeadersObject "(string \<times> string) list"

record request_init =
  headers :: "headers_init option"
  other_fields :: "(string \<times> string) list"

definition url_of :: "request_info \<Rightarrow> string" where
  "url_of input = (case input of ReqString u \<Rightarrow> u | ReqURL href \<Rightarrow> href | ReqObject u \<Rightarrow> u)"

text \<open>\<open>new Headers(init.headers || {})\<close>, \<open>has\<close> and \<open>set\<close>.\<close>

definition new_Headers :: "headers_init option \<Rightarrow> (string \<times> string) list" where
  "new_Headers h =
     (case h of
        None \<Rightarrow> []
      | Some (HeadersRecord ps) \<Rightarrow> map (\<lambda>kv. (lowercase (fst kv), snd kv)) ps
      | Some (HeadersObject hs) \<Rightarrow> hs)"

definition headers_has :: "(string \<times> string) list \<Rightarrow> string \<Rightarrow> bool" where
  "headers_has hs name = (lowercase name \<in> set (map fst hs))"

definition headers_set :: "string \<Rightarrow> string \<Rightarrow> (string \<times> string) list \<Rightarrow> (string \<times> string) list" where
  "headers_set name v hs = AList.update (lowercase name) v hs"

text \<open>
  The spread \<open>{...(init.headers || {}), Authorization: v}\<close> of the older wrapper: a
  \<open>Headers\<close> instance has no own enumerable properties, a record keeps its own.
\<close>

definition spread_headers :: "headers_init option \<Rightarrow> (string \<times> string) list" where
  "spread_headers h =
     (case h of
        None \<Rightarrow> []
      | Some (HeadersRecord ps) \<Rightarrow> ps
      | Some (HeadersObject hs) \<Rightarrow> [])"

text \<open>
  The body of the function that \<open>ensureTokenInRequests\<close> installs, up to the call of the
  wrapped fetch: the init object that it passes on.
\<close>

definition token_init :: "browser \<Rightarrow> request_info \<Rightarrow> request_init option \<Rightarrow> request_init" where
  "token_init b input init =
     (let updatedInit = (case init of Some i \<Rightarrow> i | None \<Rightarrow> \<lparr>headers = None, other_fields = []\<rparr>);
          token = getAuthToken b;
          url = url_of input;
          isSameOrigin = (startsWith url ''/'' \<or> startsWith url (origin b));
          isSupabaseCall = includes_str url (case supabase_url b of Some u \<Rightarrow> u | None \<Rightarrow> [])
      in if (isSameOrigin \<or> isSupabaseCall) \<and> truthy token then
           (let hs = new_Headers (headers updatedInit);
                hs' = (if \<not> headers_has hs ''Authorization'' \<and> \<not> headers_has hs ''authorization''
                       then headers_set ''Authorization'' (''Bearer '' @ to_string token) hs
                       else hs)
            in updatedInit\<lparr>headers := Some (HeadersObject hs')\<rparr>)
         else updatedInit)"

text \<open>
  The body of the function that \<open>applySwitchPreventionToFetch\<close> installs: with an init
  object and a token it assigns the \<open>Authorization\<close> property, whatever the URL and
  whatever the object held.
\<close>

definition switch_init :: "browser \<Rightarrow> request_init option \<Rightarrow> request_init option" where
  "switch_init b init =
     (case init of
        None \<Rightarrow> None
      | Some i \<Rightarrow>
          (let token = getAuthToken b
           in if truthy token then
                Some (i\<lparr>headers := Some (HeadersRecord
                       (AList.update ''Authorization'' (''Bearer '' @ to_string token)
                          (spread_headers (headers i))))\<rparr>)
              else Some i))"

text \<open>
  Calling \<open>window.fetch\<close>: the arguments that reach the native fetch, one entry per call of
  it, and the number of times a wrapper read the token on the way.
\<close>

fun call_fetch ::
  "fetch_impl \<Rightarrow> browser \<Rightarrow> request_info \<Rightarrow> request_init option
     \<Rightarrow> (request_info \<times> request_init option) list \<times> nat" where
  "call_fetch NativeFetch b input init = ([(input, init)], 0)"
| "call_fetch (TokenWrapper originalFetch) b input init =
     (let (calls, n) = call_fetch originalFetch b input (Some (token_init b input init))
      in (calls, Suc n))"
| "call_fetch (SwitchWrapper originalFetch) b input init =
     (let (calls, n) = call_fetch originalFetch b input (switch_init b init)
      in (calls, (if init = None then n else Suc n)))"

text \<open>
  The installers. Each call wraps the current \<open>window.fetch\<close> once more; neither keeps a
  flag that it ran before. \<open>applySwitchPreventionToFetch\<close> also registers a
  \<open>visibilitychange\<close> listener (its pass-through overrides of \<open>history\<close> are left out).
\<close>

definition ensureTokenInRequests :: "browser \<Rightarrow> browser" where
  "ensureTokenInRequests b =
     (if \<not> has_window b then b else b\<lparr>window_fetch := TokenWrapper (window_fetch b)\<rparr>)"

definition applySwitchPreventionToFetch :: "browser \<Rightarrow> browser" where
  "applySwitchPreventionToFetch b =
     (if \<not> has_window b then b
      else b\<lparr>window_fetch := SwitchWrapper (window_fetch b),
             visibility_listeners := Suc (visibility_listeners b)\<rparr>)"

text \<open>The listener of the utility, run once per registration on every visibility change.\<close>

definition util_visibility_listener :: "browser \<Rightarrow> browser" where
  "util_visibility_listener b =
     (if visible b then
        setTimeout ClearReturning 2500 (saveTabState [(''lastVisible'', JNum (int (clock b)))] b)
      else saveTabState [(''lastHidden'', JNum (int (clock b)))] b)"

section \<open>The auth context\<close>

definition USER_CACHE_KEY :: string where "USER_CACHE_KEY = ''aditi_user_cache''"

text \<open>
  What \<open>await supabase.auth.getSession()\<close> gives: an exception, or a session (\<open>null\<close> or
  a session whose \<open>user\<close> may be missing) together with an error or none. The role and team
  lookups that follow a valid session read three remote tables; a lookup that finds
  nothing and one that throws leave the same defaults.
\<close>

datatype session = Session "obj option"

datatype getSession_outcome =
    GetSessionThrows
  | GetSessionReturns "session option" bool

record directory =
  adminData :: bool
  managerData :: bool
  userData :: "(jsval \<times> jsval) option"

text \<open>\<open>user?.email\<close> on the React state.\<close>

definition email_of :: "jsval \<Rightarrow> jsval" where
  "email_of u = (case u of JObj ps \<Rightarrow> get_prop ps ''email'' | _ \<Rightarrow> JUndefined)"

text \<open>
  \<open>authUser.user_metadata?.name || authUser.email.split('@')[0] || 'User'\<close>; \<open>None\<close> is
  the TypeError of \<open>split\<close> on an email that is not a string.
\<close>

definition display_name :: "obj \<Rightarrow> jsval option" where
  "display_name authUser =
     (let metaName = (case get_prop authUser ''user_metadata'' of
                        JObj m \<Rightarrow> get_prop m ''name'' | _ \<Rightarrow> JUndefined)
      in if truthy metaName then Some metaName
         else (case get_prop authUser ''email'' of
                 JStr e \<Rightarrow>
                   (let localPart = takeWhile (\<lambda>c. c \<noteq> CHR ''@'') e
                    in Some (if localPart \<noteq> [] then JStr localPart else JStr ''User''))
               | _ \<Rightarrow> None))"

definition updateUserData :: "directory \<Rightarrow> obj \<Rightarrow> bool \<Rightarrow> browser \<Rightarrow> browser" where
  "updateUserData dir authUser showLoading b =
     (let b1 = (if showLoading then b\<lparr>isLoading := True\<rparr> else b);
          b2 =
            (if \<not> truthy (get_prop authUser ''email'') then b1\<lparr>user := JNull\<rparr>
             else (let role = (if adminData dir then ''admin''
                               else if managerData dir then ''manager'' else ''user'');
                       teamId = (case userData dir of Some t \<Rightarrow> fst t | None \<Rightarrow> JUndefined);
                       teamName = (case userData dir of Some t \<Rightarrow> snd t | None \<Rightarrow> JUndefined)
                   in case display_name authUser of
                        None \<Rightarrow> b1\<lparr>user := JNull\<rparr>
                      | Some name \<Rightarrow>
                          (let updatedUser =
                                 [(''id'', get_prop authUser ''id''),
                                  (''email'', get_prop authUser ''email''),
                                  (''name'', name),
                                  (''role'', JStr role),
                                  (''teamId'', teamId),
                                  (''teamName'', teamName),
                                  (''lastChecked'', JNum (int (clock b1)))];
                               b3 = b1\<lparr>user := JObj updatedUser\<rparr>
                           in case local_setItem USER_CACHE_KEY
                                     (JSON_stringify (JObj updatedUser)) b3 of
                                None \<Rightarrow> b3\<lparr>user := JNull\<rparr>
                              | Some b4 \<Rightarrow> b4)))
      in if showLoading then b2\<lparr>isLoading := False\<rparr> else b2)"

text \<open>
  \<open>checkSessionQuietly\<close>, once the answer of \<open>getSession\<close> is there. The function is a
  closure of one render of the provider: the \<open>user\<close> that it tests is \<open>captured_user\<close>, the
  state of that render (\<open>null\<close> for the call on mount), not the state at the time of the
  answer. A thrown exception is only logged. A returned error clears the identity and the
  cached record. A session with a user refreshes both. No session, with a captured
  identity: the identity and the record are cleared when the cached record is missing or
  empty, and nothing is done otherwise, visible or not.
\<close>

definition checkSessionQuietly ::
  "directory \<Rightarrow> jsval \<Rightarrow> getSession_outcome \<Rightarrow> browser \<Rightarrow> browser" where
  "checkSessionQuietly dir captured_user outcome b =
     (case outcome of
        GetSessionThrows \<Rightarrow> b
      | GetSessionReturns sess err \<Rightarrow>
          if err then
            b\<lparr>user := JNull, localStorage := removeItem USER_CACHE_KEY (localStorage b)\<rparr>
          else (case sess of
                  Some (Session (Some authUser)) \<Rightarrow> updateUserData dir authUser False b
                | Some (Session None) \<Rightarrow> b
                | None \<Rightarrow>
                    if truthy captured_user then
                      (case getItem USER_CACHE_KEY (localStorage b) of
                         None \<Rightarrow>
                           b\<lparr>user := JNull,
                             localStorage := removeItem USER_CACHE_KEY (localStorage b)\<rparr>
                       | Some cachedUser \<Rightarrow>
                           if \<not> stored_truthy cachedUser then
                             b\<lparr>user := JNull,
                               localStorage := removeItem USER_CACHE_KEY (localStorage b)\<rparr>
                           else b)
                    else b))"

text \<open>
  The \<open>visibilitychange\<close> handler of the auth provider, registered anew whenever \<open>user\<close>
  changes, so that it sees the current state. Its delayed session check is the
  \<open>Revalidate\<close> timer, with the \<open>user\<close> the handler saw before its own \<open>setUser\<close>.
\<close>

definition handleVisibilityChange :: "browser \<Rightarrow> browser" where
  "handleVisibilityChange b =
     (if visible b then
        (let b1 = saveTabState [(''hasAuth'', JBool (truthy (user b))),
                                (''authTimestamp'', JNum (int (clock b))),
                                (''userEmail'', email_of (user b))] b;
             b2 = (case getItem USER_CACHE_KEY (localStorage b1) of
                     None \<Rightarrow> b1
                   | Some cachedUser \<Rightarrow>
                       if stored_truthy cachedUser \<and> \<not> truthy (user b1) then
                         (case JSON_parse cachedUser of
                            None \<Rightarrow> b1
                          | Some u \<Rightarrow> b1\<lparr>user := u\<rparr>)
                       else b1)
         in setTimeout (Revalidate (user b)) 500 b2)
      else if truthy (user b) then
        saveTabState [(''hasAuth'', JBool True),
                      (''hiddenWithAuth'', JBool True),
                      (''userEmail'', email_of (user b))] b
      else b)"

subsection \<open>Sign-out\<close>

text \<open>The key tests of the three sweeps, as written in the source.\<close>

definition auth_related_local :: "string \<Rightarrow> bool" where
  "auth_related_local key =
     (startsWith key ''sb-'' \<or> startsWith key ''supabase'' \<or> includes_str key ''auth''
      \<or> includes_str key ''session'' \<or> includes_str key ''token'' \<or> includes_str key ''user''
      \<or> includes_str key ''aditi'' \<or> includes_str key ''login'' \<or> includes_str key ''password''
      \<or> includes_str key ''cache'' \<or> includes_str key ''state'')"

definition auth_related_session :: "string \<Rightarrow> bool" where
  "auth_related_session key =
     (startsWith key ''sb-'' \<or> startsWith key ''supabase'' \<or> includes_str key ''auth''
      \<or> includes_str key ''session'' \<or> includes_str key ''token'' \<or> includes_str key ''user''
      \<or> includes_str key ''aditi'' \<or> includes_str key ''login''
      \<or> includes_str key ''cache'' \<or> includes_str key ''state'')"

definition emergency_related :: "string \<Rightarrow> bool" where
  "emergency_related key =
     (includes_str key ''aditi'' \<or> includes_str key ''sb-'' \<or> includes_str key ''supabase'')"

text \<open>\<open>keys.forEach(key => store.removeItem(key))\<close> and the filtered sweep over \<open>Object.keys\<close>.\<close>

definition remove_keys :: "string list \<Rightarrow> (string \<times> 'v) list \<Rightarrow> (string \<times> 'v) list" where
  "remove_keys ks st = foldl (\<lambda>s k. removeItem k s) st ks"

definition sweep :: "(string \<Rightarrow> bool) \<Rightarrow> (string \<times> 'v) list \<Rightarrow> (string \<times> 'v) list" where
  "sweep p st = foldl (\<lambda>s k. if p k then removeItem k s else s) st (store_keys st)"

definition recheck :: "string list \<Rightarrow> (string \<times> stored) list \<Rightarrow> (string \<times> stored) list" where
  "recheck ks st =
     foldl (\<lambda>s k. case getItem k s of
                     None \<Rightarrow> s
                   | Some v \<Rightarrow> if stored_truthy v then removeItem k s else s) st ks"

text \<open>
  The statements of the \<open>try\<close> block that no inner \<open>try\<close> guards, in order: the known
  durable keys, the durable sweep, the known volatile keys, the volatile sweep, the final
  re-check of the two critical keys, and the toast with the redirect and the scheduled
  reload. The steps in between (cache storage, IndexedDB, the remote sign-out attempts and
  the session re-query) each catch their own exceptions and reach neither store here.
\<close>

datatype unguarded_stage =
    KnownLocalKeys
  | SweepLocal
  | KnownSessionKeys
  | SweepSession
  | RecheckCritical
  | Redirect

fun run_stage :: "unguarded_stage \<Rightarrow> browser \<Rightarrow> browser" where
  "run_stage KnownLocalKeys b =
     b\<lparr>localStorage := remove_keys [USER_CACHE_KEY, ''aditi_supabase_auth'', ''aditi_tab_state'',
                                     ''bypass_team_check''] (localStorage b)\<rparr>"
| "run_stage SweepLocal b = b\<lparr>localStorage := sweep auth_related_local (localStorage b)\<rparr>"
| "run_stage KnownSessionKeys b =
     b\<lparr>sessionStorage := remove_keys [''aditi_tab_id'', ''returning_from_tab_switch'',
                                       ''prevent_auto_refresh''] (sessionStorage b)\<rparr>"
| "run_stage SweepSession b = b\<lparr>sessionStorage := sweep auth_related_session (sessionStorage b)\<rparr>"
| "run_stage RecheckCritical b =
     b\<lparr>localStorage := recheck [USER_CACHE_KEY, ''aditi_supabase_auth''] (localStorage b)\<rparr>"
| "run_stage Redirect b =
     (if pathname b \<noteq> ''/'' then b\<lparr>pathname := ''/''\<rparr> else b)\<lparr>reload_in := Some 500\<rparr>"

definition signOut_stages :: "unguarded_stage list" where
  "signOut_stages =
     [KnownLocalKeys, SweepLocal, KnownSessionKeys, SweepSession, RecheckCritical, Redirect]"

text \<open>
  Running the \<open>try\<close> block. \<open>fault\<close> names the stage at which an exception escapes, if any;
  the stages before it have run, that stage and the later ones have not. The flag of the
  result says whether the \<open>catch\<close> block is entered.
\<close>

fun run_try :: "unguarded_stage option \<Rightarrow> unguarded_stage list \<Rightarrow> browser \<Rightarrow> browser \<times> bool" where
  "run_try fault [] b = (b, False)"
| "run_try fault (st # sts) b =
     (if fault = Some st then (b, True) else run_try fault sts (run_stage st b))"

text \<open>
  The \<open>catch\<close> block: the identity is cleared, the durable store is swept with the three
  patterns; if that sweep throws both stores are cleared whole, and if the clearing throws
  too nothing more is removed. The volatile store is reached only by the clearing.
\<close>

definition emergency_cleanup :: "bool \<Rightarrow> bool \<Rightarrow> browser \<Rightarrow> browser" where
  "emergency_cleanup sweep_throws clear_throws b =
     (let b1 = b\<lparr>user := JNull\<rparr>;
          b2 = (if \<not> sweep_throws then
                  b1\<lparr>localStorage := sweep emergency_related (localStorage b1)\<rparr>
                else if \<not> clear_throws then b1\<lparr>localStorage := [], sessionStorage := []\<rparr>
                else b1);
          b3 = (if pathname b2 \<noteq> ''/'' then b2\<lparr>pathname := ''/''\<rparr> else b2)
      in b3\<lparr>reload_in := Some 1000\<rparr>)"

definition signOut :: "unguarded_stage option \<Rightarrow> bool \<Rightarrow> bool \<Rightarrow> browser \<Rightarrow> browser" where
  "signOut fault sweep_throws clear_throws b =
     (let b0 = b\<lparr>isLoading := True, user := JNull\<rparr>;
          (b1, thrown) = run_try fault signOut_stages b0;
          b2 = (if thrown then emergency_cleanup sweep_throws clear_throws b1 else b1)
      in b2\<lparr>isLoading := False\<rparr>)"

section \<open>Events of one tab\<close>

text \<open>A timer callback, when it fires.\<close>

fun run_callback :: "callback \<Rightarrow> browser \<Rightarrow> browser" where
  "run_callback RemovePreventRefresh b =
     b\<lparr>sessionStorage := removeItem PREVENT_REFRESH (sessionStorage b)\<rparr>"
| "run_callback ClearReturning b =
     b\<lparr>sessionStorage := removeItem RETURNING_FLAG (sessionStorage b),
       body_classes := removeAll TAB_ACTIVE_CLASS (body_classes b)\<rparr>"
| "run_callback (Revalidate captured_user) b =
     b\<lparr>revalidating := revalidating b @ [captured_user]\<rparr>"

text \<open>
  Time passes: the clock advances and every timer that is due by then fires, earliest
  first. This is the earliest moment a browser may fire it.
\<close>

definition elapse :: "nat \<Rightarrow> browser \<Rightarrow> browser" where
  "elapse d b =
     (let now = clock b + d;
          due = filter (\<lambda>t. fst t \<le> now) (timers b);
          rest = filter (\<lambda>t. \<not> fst t \<le> now) (timers b)
      in foldl (\<lambda>s cb. run_callback cb s) (b\<lparr>clock := now, timers := rest\<rparr>)
           (map snd (sort_key fst due)))"

text \<open>
  A visibility change runs the listeners of the utility (registered in the capture phase,
  one per registration) and then the handler of the auth provider.
\<close>

definition visibilitychange :: "bool \<Rightarrow> browser \<Rightarrow> browser" where
  "visibilitychange v b =
     handleVisibilityChange
       ((util_visibility_listener ^^ visibility_listeners b) (b\<lparr>visible := v\<rparr>))"

text \<open>
  What can happen to a tab: it is shown or hidden, time passes, page code calls
  \<open>preventNextTabSwitchRefresh\<close>, or the answer to the oldest pending session check arrives (it may
  never arrive).
\<close>

datatype event =
    Show
  | Hide
  | Elapse nat
  | PreventCall
  | SessionAnswer directory getSession_outcome

fun step :: "event \<Rightarrow> browser \<Rightarrow> browser" where
  "step Show b = visibilitychange True b"
| "step Hide b = visibilitychange False b"
| "step (Elapse d) b = elapse d b"
| "step PreventCall b = preventNextTabSwitchRefresh b"
| "step (SessionAnswer dir outcome) b =
     (case revalidating b of
        [] \<Rightarrow> b
      | captured_user # waiting \<Rightarrow>
          checkSessionQuietly dir captured_user outcome (b\<lparr>revalidating := waiting\<rparr>))"

definition run_events :: "event list \<Rightarrow> browser \<Rightarrow> browser" where
  "run_events es b = foldl (\<lambda>s e. step e s) b es"

section \<open>Notions used in the statements\<close>

text \<open>The four fields that \<open>saveTabState\<close> computes itself, before the spread.\<close>

definition fresh_fields :: "browser \<Rightarrow> obj" where
  "fresh_fields b =
     [(''tabId'', JStr (fst (getTabId b))),
      (''lastActive'', JNum (int (clock b))),
      (''route'', JStr (pathname b)),
      (''authToken'', getAuthToken b)]"

text \<open>The properties of the record that \<open>saveTabState\<close> serialises.\<close>

definition saved_fields :: "browser \<Rightarrow> obj \<Rightarrow> obj" where
  "saved_fields b extra =
     map (\<lambda>kv. (fst kv, json_of (snd kv)))
       (filter (\<lambda>kv. snd kv \<noteq> JUndefined) (spread (fresh_fields b) extra))"

text \<open>
  A cached user record is present: the entry exists and is not the empty string, which is
  what the test \<open>!cachedUser\<close> of the source tells apart.
\<close>

definition cached_user_present :: "browser \<Rightarrow> bool" where
  "cached_user_present b =
     (case getItem USER_CACHE_KEY (localStorage b) of
        None \<Rightarrow> False
      | Some cachedUser \<Rightarrow> stored_truthy cachedUser)"

text \<open>Absence of the suppression flag and of the marker class.\<close>

definition returning_cleared :: "browser \<Rightarrow> bool" where
  "returning_cleared b =
     (getItem RETURNING_FLAG (sessionStorage b) = None \<and> TAB_ACTIVE_CLASS \<notin> set (body_classes b))"

text \<open>
  A step leaves the marks alone: the flag, the class list and the clock are as before and
  no pending timer is lost.
\<close>

definition keeps_marks :: "browser \<Rightarrow> browser \<Rightarrow> bool" where
  "keeps_marks s s' =
     (getItem RETURNING_FLAG (sessionStorage s') = getItem RETURNING_FLAG (sessionStorage s)
      \<and> body_classes s' = body_classes s
      \<and> clock s' = clock s
      \<and> set (timers s) \<subseteq> set (timers s'))"

text \<open>
  The marks are cleared, or the deadline \<open>T\<close> is still ahead and a clearing timer is due
  by then.
\<close>

definition clearing_on_time :: "nat \<Rightarrow> browser \<Rightarrow> bool" where
  "clearing_on_time T s =
     (returning_cleared s
      \<or> (clock s < T \<and> (\<exists>d. d \<le> T \<and> (d, ClearReturning) \<in> set (timers s))))"

text \<open>A tab in a browser, signed in with token \<open>T\<close>, on the dashboard.\<close>

definition demo_user :: obj where
  "demo_user =
     [(''id'', JStr ''u1''), (''email'', JStr ''ada@example.com''), (''name'', JStr ''ada''),
      (''role'', JStr ''user''), (''lastChecked'', JNum 900)]"

definition demo_browser :: browser where
  "demo_browser =
     \<lparr>has_window = True, clock = 1000, random_suffix = ''k3x9q2m1a'',
      pathname = ''/dashboard'', origin = ''https://app.example'',
      supabase_url = Some ''https://proj.supabase.co'', visible = True,
      localStorage =
        [(''aditi_supabase_auth'', JsonText (JObj [(''access_token'', JStr ''T'')])),
         (''aditi_user_cache'', JsonText (JObj demo_user)),
         (''login_hint'', RawText ''ada'')],
      localStorage_full = False,
      sessionStorage = [],
      body_classes = [], timers = [],
      visibility_listeners = 0, window_fetch = NativeFetch,
      user = JObj demo_user, isLoading = False, revalidating = [], reload_in = None\<rparr>"

text \<open>The remote tables know the user as a plain member of no team.\<close>

definition demo_directory :: directory where
  "demo_directory = \<lparr>adminData = False, managerData = False, userData = None\<rparr>"

text \<open>The same tab with a tab identifier and the suppression state of a tab switch.\<close>

definition demo_returning :: browser where
  "demo_returning =
     (applySwitchPreventionToFetch demo_browser)
       \<lparr>sessionStorage := [(''aditi_tab_id'', ''tab_1_abc''), (''returning_from_tab_switch'', ''true'')],
        body_classes := [''tab-just-activated'']\<rparr>"

section \<open>Stores\<close>

lemma getItem_setItem: "getItem k (setItem k v st) = Some v"
  by (simp add: getItem_def setItem_def update_conv')

lemma getItem_setItem_other: "k' \<noteq> k \<Longrightarrow> getItem k' (setItem k v st) = getItem k' st"
  by (simp add: getItem_def setItem_def update_conv')

lemma getItem_None_iff: "getItem k st = None \<longleftrightarrow> k \<notin> set (store_keys st)"
  by (simp add: getItem_def store_keys_def map_of_eq_None_iff)

lemma store_keys_removeItem: "set (store_keys (removeItem k st)) = set (store_keys st) - {k}"
  by (auto simp: store_keys_def removeItem_def)

lemma getItem_removeItem: "getItem k (removeItem k st) = None"
  by (simp add: getItem_None_iff store_keys_removeItem)

lemma getItem_removeItem_other: "k' \<noteq> k \<Longrightarrow> getItem k' (removeItem k st) = getItem k' st"
  unfolding getItem_def removeItem_def
  by (induction st) auto

section \<open>Objects and their serialisation\<close>

lemma map_of_spread:
  "distinct (map fst extra) \<Longrightarrow>
   map_of (spread base extra) k =
     (case map_of extra k of None \<Rightarrow> map_of base k | Some v \<Rightarrow> Some v)"
  unfolding spread_def set_prop_def
proof (induction extra arbitrary: base)
  case Nil
  then show ?case by simp
next
  case (Cons kv extra)
  obtain k0 v0 where kv: "kv = (k0, v0)" by (cases kv)
  from Cons.prems have d: "distinct (map fst extra)" and n: "k0 \<notin> fst ` set extra"
    by (auto simp: kv)
  from n have m: "map_of extra k0 = None" by (simp add: map_of_eq_None_iff)
  show ?case
    using Cons.IH [OF d, of "AList.update k0 v0 base"] m
    by (auto simp: kv update_conv' split: option.splits)
qed

lemma distinct_spread:
  "distinct (map fst base) \<Longrightarrow> distinct (map fst (spread base extra))"
  unfolding spread_def set_prop_def
  by (induction extra arbitrary: base) (simp_all add: distinct_update)

lemma map_of_json_fields:
  "distinct (map fst ps) \<Longrightarrow>
   map_of (map (\<lambda>kv. (fst kv, json_of (snd kv))) (filter (\<lambda>kv. snd kv \<noteq> JUndefined) ps)) k =
     (case map_of ps k of None \<Rightarrow> None
      | Some v \<Rightarrow> if v = JUndefined then None else Some (json_of v))"
proof (induction ps)
  case Nil
  then show ?case by simp
next
  case (Cons kv ps)
  obtain k0 v0 where kv: "kv = (k0, v0)" by (cases kv)
  from Cons.prems have d: "distinct (map fst ps)" and n: "k0 \<notin> fst ` set ps"
    by (auto simp: kv)
  from n have m: "map_of ps k0 = None" by (simp add: map_of_eq_None_iff)
  show ?case using Cons.IH [OF d] m by (auto simp: kv)
qed

lemma get_prop_json_fields:
  "distinct (map fst ps) \<Longrightarrow>
   get_prop (map (\<lambda>kv. (fst kv, json_of (snd kv))) (filter (\<lambda>kv. snd kv \<noteq> JUndefined) ps)) k
     = json_of (get_prop ps k)"
  by (simp add: get_prop_def map_of_json_fields split: option.splits)

text \<open>A value that is not an object is its own JSON form.\<close>

lemma json_of_scalar:
  "json_of JUndefined = JUndefined \<and> json_of JNull = JNull \<and> json_of (JBool x) = JBool x
   \<and> json_of (JNum n) = JNum n \<and> json_of (JStr s) = JStr s"
  by simp

section \<open>The tab identifier\<close>

lemma getTabId_fresh:
  assumes "has_window b"
    and "getItem TAB_ID_KEY (sessionStorage b) = None
         \<or> getItem TAB_ID_KEY (sessionStorage b) = Some []"
  shows "getTabId b =
           (''tab_'' @ decimal (clock b) @ ''_'' @ random_suffix b,
            b\<lparr>sessionStorage := setItem TAB_ID_KEY
                 (''tab_'' @ decimal (clock b) @ ''_'' @ random_suffix b) (sessionStorage b)\<rparr>)"
  using assms by (auto simp: getTabId_def Let_def)

lemma getTabId_kept:
  assumes "has_window b" and "getItem TAB_ID_KEY (sessionStorage b) = Some t" and "t \<noteq> []"
  shows "getTabId b = (t, b)"
  using assms by (simp add: getTabId_def)

lemma getTabId_cases:
  assumes "has_window b"
  shows "\<exists>t ss. t \<noteq> [] \<and> getTabId b = (t, b\<lparr>sessionStorage := ss\<rparr>)
           \<and> getItem TAB_ID_KEY ss = Some t
           \<and> (\<forall>k. k \<noteq> TAB_ID_KEY \<longrightarrow> getItem k ss = getItem k (sessionStorage b))"
proof (cases "getItem TAB_ID_KEY (sessionStorage b) = None
              \<or> getItem TAB_ID_KEY (sessionStorage b) = Some []")
  case True
  let ?t = "''tab_'' @ decimal (clock b) @ ''_'' @ random_suffix b"
  show ?thesis
    apply (rule exI [of _ ?t])
    apply (rule exI [of _ "setItem TAB_ID_KEY ?t (sessionStorage b)"])
    apply (simp add: getTabId_fresh [OF assms True] getItem_setItem getItem_setItem_other)
    done
next
  case False
  then obtain t where t: "getItem TAB_ID_KEY (sessionStorage b) = Some t" "t \<noteq> []"
    by (cases "getItem TAB_ID_KEY (sessionStorage b)") auto
  show ?thesis
    apply (rule exI [of _ t])
    apply (rule exI [of _ "sessionStorage b"])
    apply (simp add: getTabId_kept [OF assms t] t)
    done
qed

text \<open>
  C8. Two calls of \<open>getTabId\<close> in one tab lifetime return the same string: the second call
  starts from the state the first one left, at any later clock value and with any other
  random value, the volatile store untouched in between. Without a window the function
  returns the empty string and changes nothing.
\<close>

theorem getTabId_twice_same:
  "fst (getTabId ((snd (getTabId b))\<lparr>clock := t', random_suffix := r'\<rparr>)) = fst (getTabId b)
   \<and> getTabId (b\<lparr>has_window := False\<rparr>) = ([], b\<lparr>has_window := False\<rparr>)"
proof
  show "fst (getTabId ((snd (getTabId b))\<lparr>clock := t', random_suffix := r'\<rparr>)) = fst (getTabId b)"
  proof (cases "has_window b")
    case True
    from getTabId_cases [OF True] obtain t ss where
      t: "t \<noteq> []" "getTabId b = (t, b\<lparr>sessionStorage := ss\<rparr>)" "getItem TAB_ID_KEY ss = Some t"
      by blast
    have "getTabId (b\<lparr>sessionStorage := ss, clock := t', random_suffix := r'\<rparr>)
            = (t, b\<lparr>sessionStorage := ss, clock := t', random_suffix := r'\<rparr>)"
      by (rule getTabId_kept) (simp_all add: True t)
    then show ?thesis by (simp add: t)
  next
    case False
    then show ?thesis by (simp add: getTabId_def)
  qed
next
  show "getTabId (b\<lparr>has_window := False\<rparr>) = ([], b\<lparr>has_window := False\<rparr>)"
    by (simp add: getTabId_def)
qed

text \<open>In a browser the identifier is a fresh \<open>tab_...\<close> string on the first call.\<close>

lemma getTabId_demo:
  "fst (getTabId demo_browser) = ''tab_1000_k3x9q2m1a''
   \<and> fst (getTabId ((snd (getTabId demo_browser))\<lparr>clock := 2000, random_suffix := ''zzzzzzzzz''\<rparr>))
       = ''tab_1000_k3x9q2m1a''"
  by code_simp

section \<open>Saving and restoring the tab record\<close>

lemma getAuthToken_sessionStorage [simp]:
  "getAuthToken (b\<lparr>sessionStorage := ss\<rparr>) = getAuthToken b"
  by (simp add: getAuthToken_def)

lemma saveTabState_written:
  assumes w: "has_window b" and q: "\<not> localStorage_full b"
  shows "getItem TAB_STATE_KEY (localStorage (saveTabState extra b))
           = Some (JsonText (JObj (saved_fields b extra)))"
proof -
  from getTabId_cases [OF w] obtain t ss where
    t: "getTabId b = (t, b\<lparr>sessionStorage := ss\<rparr>)" by blast
  show ?thesis
    using w q
    by (simp add: saveTabState_def tabState_of_def t local_setItem_def JSON_stringify_def
        getItem_setItem saved_fields_def fresh_fields_def)
qed



lemma distinct_fresh_fields: "distinct (map fst (fresh_fields b))"
  by (simp add: fresh_fields_def)

lemma get_prop_saved_fields:
  assumes "distinct (map fst extra)"
  shows "get_prop (saved_fields b extra) k =
           json_of (case map_of extra k of None \<Rightarrow> get_prop (fresh_fields b) k | Some v \<Rightarrow> v)"
  unfolding saved_fields_def
  by (simp add: get_prop_json_fields distinct_spread distinct_fresh_fields)
     (simp add: get_prop_def map_of_spread [OF assms] split: option.splits)


text \<open>
  C10. In a browser whose durable store accepts the write, for every key that the caller's
  map \<open>extra\<close> holds (the keys of an object are distinct), so also for \<open>tabId\<close>,
  \<open>lastActive\<close>, \<open>route\<close> and \<open>authToken\<close>, the record written under \<open>aditi_tab_state\<close> reads
  at that key as the value from \<open>extra\<close> in its JSON form (\<open>json_of\<close>, the value itself
  unless an object inside it holds \<open>undefined\<close>), never as the freshly computed field.
\<close>

theorem saveTabState_extra_precedence:
  assumes "has_window b" and "\<not> localStorage_full b"
    and "distinct (map fst extra)" and "has_prop extra k"
  shows "\<exists>rec. getItem TAB_STATE_KEY (localStorage (saveTabState extra b))
                  = Some (JsonText (JObj rec))
           \<and> get_prop rec k = json_of (get_prop extra k)"
proof -
  from assms(4) obtain v where v: "map_of extra k = Some v"
    by (auto simp: has_prop_def)
  have "get_prop (saved_fields b extra) k = json_of (get_prop extra k)"
    by (simp add: get_prop_saved_fields [OF assms(3)] v) (simp add: get_prop_def v)
  with saveTabState_written [OF assms(1,2)] show ?thesis by blast
qed

theorem saveTabState_extra_precedence_witness:
  "has_window demo_browser \<and> \<not> localStorage_full demo_browser
   \<and> distinct (map fst [(''route'', JStr ''/mine''), (''x'', JNum 1)])
   \<and> has_prop [(''route'', JStr ''/mine''), (''x'', JNum 1)] ''route''
   \<and> pathname demo_browser = ''/dashboard''
   \<and> (\<exists>rec. getItem TAB_STATE_KEY
               (localStorage (saveTabState [(''route'', JStr ''/mine''), (''x'', JNum 1)] demo_browser))
                = Some (JsonText (JObj rec))
            \<and> get_prop rec ''route'' = JStr ''/mine'')"
proof -
  have h1: "has_window demo_browser" by (simp add: demo_browser_def)
  have h2: "\<not> localStorage_full demo_browser" by (simp add: demo_browser_def)
  have h3: "distinct (map fst [(''route'', JStr ''/mine''), (''x'', JNum (1::int))])" by simp
  have h4: "has_prop [(''route'', JStr ''/mine''), (''x'', JNum 1)] ''route''"
    by (simp add: has_prop_def)
  have h5: "pathname demo_browser = ''/dashboard''" by (simp add: demo_browser_def)
  have v: "json_of (get_prop [(''route'', JStr ''/mine''), (''x'', JNum 1)] ''route'') = JStr ''/mine''"
    by (simp add: get_prop_def)
  show ?thesis
    using saveTabState_extra_precedence [OF h1 h2 h3 h4] h1 h2 h3 h4 h5 v by simp
qed

text \<open>
  C9, as amended. In a browser whose durable store accepts the write, and for a caller's
  map \<open>extra\<close> that has no \<open>authToken\<close> key of its own, the record written under
  \<open>aditi_tab_state\<close> holds at \<open>authToken\<close> the value that \<open>getAuthToken\<close> returns (the
  token string itself, or \<open>null\<close>), not a presence flag. With an \<open>authToken\<close> key in
  \<open>extra\<close> the record holds the caller's value instead.
\<close>

theorem saveTabState_stores_token:
  assumes "has_window b" and "\<not> localStorage_full b"
    and "distinct (map fst extra)" and "\<not> has_prop extra ''authToken''"
  shows "\<exists>rec. getItem TAB_STATE_KEY (localStorage (saveTabState extra b))
                  = Some (JsonText (JObj rec))
           \<and> get_prop rec ''authToken'' = json_of (getAuthToken b)"
proof -
  from assms(4) have v: "map_of extra ''authToken'' = None"
    by (auto simp: has_prop_def)
  have "get_prop (saved_fields b extra) ''authToken'' = json_of (getAuthToken b)"
    by (simp add: get_prop_saved_fields [OF assms(3)] v) (simp add: get_prop_def fresh_fields_def)
  with saveTabState_written [OF assms(1,2)] show ?thesis by blast
qed

theorem saveTabState_stores_token_witness:
  "has_window demo_browser \<and> \<not> localStorage_full demo_browser
   \<and> distinct (map fst [(''lastVisible'', JNum 1000)])
   \<and> \<not> has_prop [(''lastVisible'', JNum 1000)] ''authToken''
   \<and> (\<exists>rec. getItem TAB_STATE_KEY
               (localStorage (saveTabState [(''lastVisible'', JNum 1000)] demo_browser))
                = Some (JsonText (JObj rec))
            \<and> get_prop rec ''authToken'' = JStr ''T'')"
proof -
  have h1: "has_window demo_browser" by (simp add: demo_browser_def)
  have h2: "\<not> localStorage_full demo_browser" by (simp add: demo_browser_def)
  have h3: "distinct (map fst [(''lastVisible'', JNum (1000::int))])" by simp
  have h4: "\<not> has_prop [(''lastVisible'', JNum 1000)] ''authToken''"
    by (simp add: has_prop_def)
  have v: "json_of (getAuthToken demo_browser) = JStr ''T''" by code_simp
  show ?thesis
    using saveTabState_stores_token [OF h1 h2 h3 h4] h1 h2 h3 h4 v by simp
qed

text \<open>
  C9 as stated fails: with \<open>{authToken: 'x'}\<close> as \<open>extra\<close> the write succeeds and the
  record holds \<open>'x'\<close> under \<open>authToken\<close>, while the current token is \<open>'T'\<close>.
\<close>

theorem saveTabState_token_overridden:
  "getAuthToken demo_browser = JStr ''T''
   \<and> getItem TAB_STATE_KEY (localStorage (saveTabState [(''authToken'', JStr ''x'')] demo_browser))
       = Some (JsonText (JObj [(''tabId'', JStr ''tab_1000_k3x9q2m1a''),
                               (''lastActive'', JNum 1000),
                               (''route'', JStr ''/dashboard''),
                               (''authToken'', JStr ''x'')]))"
  by code_simp




section \<open>Revalidation\<close>

text \<open>
  C3, as amended. When the session query throws, \<open>checkSessionQuietly\<close> changes nothing:
  the identity in memory and the cached user record stay as they were. When the query
  returns with an error, the identity in memory is set to \<open>null\<close> and the cached user
  record is removed, whatever session came with it and whatever identity the closure
  captured.
\<close>

theorem checkSessionQuietly_on_error:
  "checkSessionQuietly dir captured GetSessionThrows b = b
   \<and> user (checkSessionQuietly dir captured (GetSessionReturns sess True) b) = JNull
   \<and> getItem USER_CACHE_KEY
        (localStorage (checkSessionQuietly dir captured (GetSessionReturns sess True) b))
       = None"
  by (simp add: checkSessionQuietly_def getItem_removeItem)

text \<open>
  C3 as stated fails: a returned error signs the demo tab out and drops its cached record.
\<close>

theorem returned_error_clears_state:
  "user demo_browser = JObj demo_user
   \<and> getItem USER_CACHE_KEY (localStorage demo_browser) = Some (JsonText (JObj demo_user))
   \<and> user (checkSessionQuietly demo_directory (JObj demo_user) (GetSessionReturns None True)
              demo_browser) = JNull
   \<and> getItem USER_CACHE_KEY
        (localStorage (checkSessionQuietly demo_directory (JObj demo_user)
                         (GetSessionReturns None True) demo_browser))
       = None"
  by code_simp

text \<open>
  What the branch for no session does, by the identity that the closure captured: with a
  captured identity and no cached record it clears the identity and the record's key;
  without a captured identity, or with a cached record, it changes nothing.
\<close>

lemma no_session_branch:
  "checkSessionQuietly dir captured (GetSessionReturns None False) b
     = (if truthy captured \<and> \<not> cached_user_present b
        then b\<lparr>user := JNull, localStorage := removeItem USER_CACHE_KEY (localStorage b)\<rparr>
        else b)"
  by (auto simp: checkSessionQuietly_def cached_user_present_def split: option.splits)

text \<open>
  C4. Revalidation reports no session (the query returns \<open>null\<close> and no error) while an
  identity is in memory, whatever identity the closure of the check captured. If a cached
  user record is present, nothing changes at all, so the identity and the record are
  preserved, in a hidden tab as in a visible one. And the identity is cleared only when no
  cached record is present: if it is \<open>null\<close> afterwards, there was none.
\<close>

theorem checkSessionQuietly_no_session:
  assumes "truthy (user b)"
  shows "(cached_user_present b
            \<longrightarrow> checkSessionQuietly dir captured (GetSessionReturns None False) b = b)
       \<and> (user (checkSessionQuietly dir captured (GetSessionReturns None False) b) = JNull
            \<longrightarrow> \<not> cached_user_present b)"
  using assms by (auto simp: no_session_branch)

theorem checkSessionQuietly_no_session_witness:
  "truthy (user (demo_browser\<lparr>visible := False\<rparr>))
   \<and> cached_user_present (demo_browser\<lparr>visible := False\<rparr>)
   \<and> checkSessionQuietly demo_directory (JObj demo_user) (GetSessionReturns None False)
        (demo_browser\<lparr>visible := False\<rparr>) = demo_browser\<lparr>visible := False\<rparr>
   \<and> truthy (user (demo_browser\<lparr>localStorage := []\<rparr>))
   \<and> user (checkSessionQuietly demo_directory (JObj demo_user) (GetSessionReturns None False)
              (demo_browser\<lparr>localStorage := []\<rparr>)) = JNull
   \<and> \<not> cached_user_present (demo_browser\<lparr>localStorage := []\<rparr>)"
proof -
  have h1: "truthy (user (demo_browser\<lparr>visible := False\<rparr>))"
    by (simp add: demo_browser_def)
  have c1: "cached_user_present (demo_browser\<lparr>visible := False\<rparr>)"
    by code_simp
  have h2: "truthy (user (demo_browser\<lparr>localStorage := []\<rparr>))"
    by (simp add: demo_browser_def)
  have c2: "user (checkSessionQuietly demo_directory (JObj demo_user) (GetSessionReturns None False)
                   (demo_browser\<lparr>localStorage := []\<rparr>)) = JNull"
    by code_simp
  show ?thesis
    using checkSessionQuietly_no_session [OF h1, of demo_directory "JObj demo_user"]
          checkSessionQuietly_no_session [OF h2, of demo_directory "JObj demo_user"] h1 c1 h2 c2
    by simp
qed

text \<open>
  The check that the show handler schedules after it restored the identity from the cache
  captured \<open>null\<close>: it leaves the identity in place even when the cached record has gone
  by the time of the answer.
\<close>

lemma stale_closure_keeps_identity:
  "checkSessionQuietly demo_directory JNull (GetSessionReturns None False)
     (demo_browser\<lparr>localStorage := []\<rparr>) = demo_browser\<lparr>localStorage := []\<rparr>"
  by (simp add: no_session_branch)

section \<open>Credential injection\<close>

lemma lowercase_Authorization: "lowercase ''Authorization'' = ''authorization''"
  by code_simp

lemma lowercase_authorization: "lowercase ''authorization'' = ''authorization''"
  by code_simp

lemma headers_has_set: "headers_has (headers_set name v hs) name"
  by (simp add: headers_has_def headers_set_def dom_update)

text \<open>
  Within its own tests the newer wrapper keeps to its guards: when the URL passes neither
  test, or no token is cached, the init object goes on as it came (an empty one for a
  missing one); and headers that already name \<open>Authorization\<close> go on with their values.
\<close>

lemma token_init_untouched:
  assumes "\<not> truthy (getAuthToken b)
           \<or> \<not> (startsWith (url_of input) ''/'' \<or> startsWith (url_of input) (origin b)
                 \<or> includes_str (url_of input) (case supabase_url b of Some u \<Rightarrow> u | None \<Rightarrow> []))"
  shows "token_init b input init
           = (case init of Some i \<Rightarrow> i | None \<Rightarrow> \<lparr>headers = None, other_fields = []\<rparr>)"
  using assms by (auto simp: token_init_def Let_def)

lemma token_init_keeps_authorization:
  assumes "headers_has (new_Headers (headers i)) ''Authorization''"
  shows "token_init b input (Some i) = i
         \<or> token_init b input (Some i) = i\<lparr>headers := Some (HeadersObject (new_Headers (headers i)))\<rparr>"
  using assms by (auto simp: token_init_def Let_def)

lemma token_init_idem:
  "token_init b input (Some (token_init b input init)) = token_init b input init"
proof -
  have eq: "headers_has hs ''authorization'' = headers_has hs ''Authorization''" for hs
    by (simp add: headers_has_def lowercase_Authorization lowercase_authorization)
  show ?thesis
    by (auto simp: token_init_def Let_def new_Headers_def eq headers_has_set
          split: option.splits)
qed

lemma call_fetch_once: "length (fst (call_fetch w b input init)) = 1"
  by (induction w arbitrary: init) (simp_all add: case_prod_beta Let_def)

text \<open>
  C2, evaluated at two failing requests of a tab whose cached token is \<open>T\<close> and whose
  origin is \<open>https://app.example\<close>. Through the wrapper of \<open>ensureTokenInRequests\<close> the
  protocol-relative URL \<open>//evil.example/collect\<close>, which names another host, passes the
  test \<open>startsWith('/')\<close> and reaches the native fetch with \<open>Bearer T\<close>. Through the wrapper
  of \<open>applySwitchPreventionToFetch\<close> a request to \<open>https://evil.example/collect\<close> that
  carries \<open>Authorization: Basic abc\<close> reaches the native fetch with \<open>Bearer T\<close> in its place.
\<close>

theorem bearer_token_leaves_origin:
  "fst (call_fetch (window_fetch (ensureTokenInRequests demo_browser))
          (ensureTokenInRequests demo_browser) (ReqString ''//evil.example/collect'') None)
     = [(ReqString ''//evil.example/collect'',
         Some \<lparr>headers = Some (HeadersObject [(''authorization'', ''Bearer T'')]),
               other_fields = []\<rparr>)]
   \<and> fst (call_fetch (window_fetch (applySwitchPreventionToFetch demo_browser))
            (applySwitchPreventionToFetch demo_browser) (ReqString ''https://evil.example/collect'')
            (Some \<lparr>headers = Some (HeadersRecord [(''Authorization'', ''Basic abc'')]),
                   other_fields = [(''method'', ''POST'')]\<rparr>))
       = [(ReqString ''https://evil.example/collect'',
           Some \<lparr>headers = Some (HeadersRecord [(''Authorization'', ''Bearer T'')]),
                 other_fields = [(''method'', ''POST'')]\<rparr>)]"
  by code_simp

text \<open>
  The same wrapper of \<open>ensureTokenInRequests\<close> leaves a request to that host alone when the URL
  is absolute, and treats every URL as a Supabase call when no Supabase URL is configured.
\<close>

lemma absolute_foreign_url_untouched:
  "fst (call_fetch (TokenWrapper NativeFetch) demo_browser
          (ReqString ''https://evil.example/collect'') None)
     = [(ReqString ''https://evil.example/collect'', Some \<lparr>headers = None, other_fields = []\<rparr>)]"
  by code_simp

lemma unconfigured_supabase_url_matches_all:
  "fst (call_fetch (TokenWrapper NativeFetch) (demo_browser\<lparr>supabase_url := None\<rparr>)
          (ReqString ''https://evil.example/collect'') None)
     = [(ReqString ''https://evil.example/collect'',
         Some \<lparr>headers = Some (HeadersObject [(''authorization'', ''Bearer T'')]),
               other_fields = []\<rparr>)]"
  by code_simp

text \<open>
  C5, as amended. \<open>ensureTokenInRequests\<close> keeps no record that it ran: in a browser a
  second invocation wraps \<open>window.fetch\<close> once more and every request passes one more
  token read. The second pass changes nothing, though: through the doubly wrapped fetch the
  previous \<open>window.fetch\<close> receives the same arguments as through the singly wrapped one,
  and the native fetch is called exactly once per request.
\<close>

theorem ensureTokenInRequests_twice:
  "fst (call_fetch (window_fetch (ensureTokenInRequests (ensureTokenInRequests b))) b' input init)
     = fst (call_fetch (window_fetch (ensureTokenInRequests b)) b' input init)
   \<and> length (fst (call_fetch (window_fetch (ensureTokenInRequests (ensureTokenInRequests b)))
                      b' input init)) = 1
   \<and> snd (call_fetch (window_fetch (ensureTokenInRequests (ensureTokenInRequests b))) b' input init)
       = (if has_window b
          then Suc (snd (call_fetch (window_fetch (ensureTokenInRequests b)) b' input init))
          else snd (call_fetch (window_fetch (ensureTokenInRequests b)) b' input init))"
  by (simp add: ensureTokenInRequests_def call_fetch_once token_init_idem case_prod_beta)

text \<open>
  C5 as stated fails: the second invocation is not a no-op. After two invocations
  \<open>window.fetch\<close> is a wrapper around a wrapper, and a request passes two token reads.
\<close>

theorem second_install_wraps_again:
  "window_fetch (ensureTokenInRequests demo_browser) = TokenWrapper NativeFetch
   \<and> window_fetch (ensureTokenInRequests (ensureTokenInRequests demo_browser))
       = TokenWrapper (TokenWrapper NativeFetch)
   \<and> snd (call_fetch (window_fetch (ensureTokenInRequests demo_browser))
            demo_browser (ReqString ''/api/updates'') None) = 1
   \<and> snd (call_fetch (window_fetch (ensureTokenInRequests (ensureTokenInRequests demo_browser)))
            demo_browser (ReqString ''/api/updates'') None) = 2"
  by code_simp

section \<open>Sign-out\<close>

lemma foldl_removeItem_filter:
  "foldl (\<lambda>s k. if p k then removeItem k s else s) st ks
     = filter (\<lambda>kv. \<not> (fst kv \<in> set ks \<and> p (fst kv))) st"
proof (induction ks arbitrary: st)
  case Nil
  then show ?case by simp
next
  case (Cons k ks)
  show ?case
    by (auto simp: Cons.IH removeItem_def intro!: filter_cong)
qed

lemma sweep_filter: "sweep p st = filter (\<lambda>kv. \<not> p (fst kv)) st"
  unfolding sweep_def foldl_removeItem_filter store_keys_def
  by (rule filter_cong) auto

lemma store_keys_sweep: "set (store_keys (sweep p st)) = {k \<in> set (store_keys st). \<not> p k}"
  by (auto simp: sweep_filter store_keys_def)

lemma store_keys_remove_keys:
  "set (store_keys (remove_keys ks st)) \<subseteq> set (store_keys st)"
  unfolding remove_keys_def
proof (induction ks arbitrary: st)
  case Nil
  then show ?case by simp
next
  case (Cons k ks)
  have "set (store_keys (foldl (\<lambda>s k. removeItem k s) (removeItem k st) ks))
          \<subseteq> set (store_keys (removeItem k st))"
    by (rule Cons.IH)
  then show ?case by (auto simp: store_keys_removeItem)
qed

lemma store_keys_recheck: "set (store_keys (recheck ks st)) \<subseteq> set (store_keys st)"
  unfolding recheck_def
proof (induction ks arbitrary: st)
  case Nil
  then show ?case by simp
next
  case (Cons k ks)
  let ?st' = "case getItem k st of None \<Rightarrow> st
              | Some v \<Rightarrow> if stored_truthy v then removeItem k st else st"
  have a: "set (store_keys ?st') \<subseteq> set (store_keys st)"
    by (auto simp: store_keys_removeItem split: option.splits)
  have "set (store_keys (foldl (\<lambda>s k. case getItem k s of None \<Rightarrow> s
            | Some v \<Rightarrow> if stored_truthy v then removeItem k s else s) ?st' ks))
          \<subseteq> set (store_keys ?st')"
    by (rule Cons.IH)
  with a show ?case by auto
qed

lemma run_stage_keys:
  "set (store_keys (localStorage (run_stage st b))) \<subseteq> set (store_keys (localStorage b))
   \<and> set (store_keys (sessionStorage (run_stage st b))) \<subseteq> set (store_keys (sessionStorage b))"
  by (cases st)
     (auto simp: store_keys_sweep dest: subsetD [OF store_keys_remove_keys]
        subsetD [OF store_keys_recheck])

lemma run_try_keys:
  "set (store_keys (localStorage (fst (run_try fault sts b)))) \<subseteq> set (store_keys (localStorage b))
   \<and> set (store_keys (sessionStorage (fst (run_try fault sts b))))
       \<subseteq> set (store_keys (sessionStorage b))"
proof (induction sts arbitrary: b)
  case Nil
  then show ?case by simp
next
  case (Cons st sts)
  show ?case
  proof (cases "fault = Some st")
    case True
    then show ?thesis by simp
  next
    case False
    from Cons.IH [of "run_stage st b"] run_stage_keys [of st b] False
    show ?thesis by auto
  qed
qed

lemma store_keys_empty: "store_keys [] = []"
  by (simp add: store_keys_def)

lemma emergency_cleanup_keys:
  "set (store_keys (localStorage (emergency_cleanup sw cl b))) \<subseteq> set (store_keys (localStorage b))
   \<and> set (store_keys (sessionStorage (emergency_cleanup sw cl b)))
       \<subseteq> set (store_keys (sessionStorage b))"
  by (auto simp: emergency_cleanup_def Let_def store_keys_sweep store_keys_empty)

lemma emergency_cleanup_local:
  assumes "\<not> sw \<or> \<not> cl"
  shows "\<forall>k \<in> set (store_keys (localStorage (emergency_cleanup sw cl b))). \<not> emergency_related k"
  using assms by (auto simp: emergency_cleanup_def Let_def store_keys_sweep store_keys_empty)

lemma auth_related_session_local: "auth_related_session k \<Longrightarrow> auth_related_local k"
  by (auto simp: auth_related_session_def auth_related_local_def)

lemma AUTH_TOKEN_KEY_related:
  "auth_related_session AUTH_TOKEN_KEY \<and> emergency_related AUTH_TOKEN_KEY"
  by code_simp

lemma getAuthToken_absent:
  "AUTH_TOKEN_KEY \<notin> set (store_keys (localStorage b)) \<Longrightarrow> getAuthToken b = JNull"
  by (simp add: getAuthToken_def getItem_None_iff [symmetric])

text \<open>The state after the four storage stages, which every later stage only shrinks.\<close>

lemma run_try_after_sweeps:
  assumes "fault \<in> {None, Some RecheckCritical, Some Redirect}"
  shows "run_try fault signOut_stages b
           = run_try fault [RecheckCritical, Redirect]
               (run_stage SweepSession (run_stage KnownSessionKeys
                  (run_stage SweepLocal (run_stage KnownLocalKeys b))))"
  using assms by (auto simp: signOut_stages_def)

lemma run_try_thrown:
  "snd (run_try (Some st) signOut_stages b) = True"
  by (cases st) (simp_all add: signOut_stages_def)

lemma signOut_keys:
  "set (store_keys (localStorage (signOut fault sw cl b)))
     \<subseteq> set (store_keys (localStorage (fst (run_try fault signOut_stages
                                                (b\<lparr>isLoading := True, user := JNull\<rparr>)))))
   \<and> set (store_keys (sessionStorage (signOut fault sw cl b)))
       \<subseteq> set (store_keys (sessionStorage (fst (run_try fault signOut_stages
                                                    (b\<lparr>isLoading := True, user := JNull\<rparr>)))))"
  using emergency_cleanup_keys
  by (auto simp: signOut_def Let_def case_prod_beta)

lemma signOut_swept:
  assumes "fault \<in> {None, Some RecheckCritical, Some Redirect}"
  shows "(\<forall>k \<in> set (store_keys (localStorage (signOut fault sw cl b))). \<not> auth_related_local k)
       \<and> (\<forall>k \<in> set (store_keys (sessionStorage (signOut fault sw cl b))). \<not> auth_related_session k)"
proof -
  let ?b0 = "b\<lparr>isLoading := True, user := JNull\<rparr>"
  let ?b4 = "run_stage SweepSession (run_stage KnownSessionKeys
               (run_stage SweepLocal (run_stage KnownLocalKeys ?b0)))"
  have l4: "\<forall>k \<in> set (store_keys (localStorage ?b4)). \<not> auth_related_local k"
    by (simp add: store_keys_sweep)
  have s4: "\<forall>k \<in> set (store_keys (sessionStorage ?b4)). \<not> auth_related_session k"
    by (simp add: store_keys_sweep)
  have r: "run_try fault signOut_stages ?b0 = run_try fault [RecheckCritical, Redirect] ?b4"
    by (rule run_try_after_sweeps [OF assms])
  from run_try_keys [of fault "[RecheckCritical, Redirect]" ?b4] signOut_keys [of fault sw cl b]
  have "set (store_keys (localStorage (signOut fault sw cl b)))
          \<subseteq> set (store_keys (localStorage ?b4))"
    and "set (store_keys (sessionStorage (signOut fault sw cl b)))
          \<subseteq> set (store_keys (sessionStorage ?b4))"
    unfolding r by blast+
  with l4 s4 show ?thesis by blast
qed

lemma signOut_emergency:
  assumes "fault \<noteq> None" and "\<not> sw \<or> \<not> cl"
  shows "\<forall>k \<in> set (store_keys (localStorage (signOut fault sw cl b))). \<not> emergency_related k"
proof -
  from assms(1) obtain st where st: "fault = Some st" by auto
  let ?b0 = "b\<lparr>isLoading := True, user := JNull\<rparr>"
  have "localStorage (signOut fault sw cl b)
          = localStorage (emergency_cleanup sw cl (fst (run_try fault signOut_stages ?b0)))"
    using run_try_thrown [of st ?b0]
    by (simp add: signOut_def Let_def case_prod_beta st)
  with emergency_cleanup_local [OF assms(2)] show ?thesis by simp
qed

text \<open>
  C1, as amended. \<open>fault\<close> is the unguarded stage of the \<open>try\<close> block at which an exception
  escapes, if any; \<open>sweep_throws\<close> and \<open>clear_throws\<close> say whether the sweep and the clearing
  of the \<open>catch\<close> block throw in turn. When \<open>signOut\<close> completes without an exception, or
  the fallback is entered only after both sweeps have run (from the final re-check or from
  the redirect), no key of either store matches the credential vocabulary and
  \<open>getAuthToken\<close> returns \<open>null\<close>. When the fallback is entered at any stage and its own
  sweep or its clearing succeeds, no durable key contains \<open>aditi\<close>, \<open>sb-\<close> or \<open>supabase\<close>
  and \<open>getAuthToken\<close> returns \<open>null\<close>; nothing more is promised for that path.
\<close>

theorem signOut_purges_credentials:
  "(fault \<in> {None, Some RecheckCritical, Some Redirect} \<longrightarrow>
      (\<forall>k \<in> set (store_keys (localStorage (signOut fault sweep_throws clear_throws b))).
          \<not> auth_related_session k)
    \<and> (\<forall>k \<in> set (store_keys (sessionStorage (signOut fault sweep_throws clear_throws b))).
          \<not> auth_related_session k)
    \<and> getAuthToken (signOut fault sweep_throws clear_throws b) = JNull)
   \<and> (fault \<noteq> None \<and> (\<not> sweep_throws \<or> \<not> clear_throws) \<longrightarrow>
        (\<forall>k \<in> set (store_keys (localStorage (signOut fault sweep_throws clear_throws b))).
            \<not> emergency_related k)
      \<and> getAuthToken (signOut fault sweep_throws clear_throws b) = JNull)"
proof (intro conjI impI)
  assume f: "fault \<in> {None, Some RecheckCritical, Some Redirect}"
  from signOut_swept [OF f, of sweep_throws clear_throws b] auth_related_session_local
  show l: "\<forall>k \<in> set (store_keys (localStorage (signOut fault sweep_throws clear_throws b))).
             \<not> auth_related_session k"
    by blast
  from signOut_swept [OF f, of sweep_throws clear_throws b]
  show "\<forall>k \<in> set (store_keys (sessionStorage (signOut fault sweep_throws clear_throws b))).
          \<not> auth_related_session k"
    by blast
  from l AUTH_TOKEN_KEY_related
  have "AUTH_TOKEN_KEY \<notin> set (store_keys (localStorage (signOut fault sweep_throws clear_throws b)))"
    by blast
  then show "getAuthToken (signOut fault sweep_throws clear_throws b) = JNull"
    by (rule getAuthToken_absent)
next
  assume e: "fault \<noteq> None \<and> (\<not> sweep_throws \<or> \<not> clear_throws)"
  then have e1: "fault \<noteq> None" and e2: "\<not> sweep_throws \<or> \<not> clear_throws" by simp_all
  from signOut_emergency [OF e1 e2, of b]
  show l: "\<forall>k \<in> set (store_keys (localStorage (signOut fault sweep_throws clear_throws b))).
             \<not> emergency_related k" .
  from l AUTH_TOKEN_KEY_related
  have "AUTH_TOKEN_KEY \<notin> set (store_keys (localStorage (signOut fault sweep_throws clear_throws b)))"
    by blast
  then show "getAuthToken (signOut fault sweep_throws clear_throws b) = JNull"
    by (rule getAuthToken_absent)
qed

theorem signOut_purges_credentials_witness:
  "None \<in> {None, Some RecheckCritical, Some Redirect}
   \<and> store_keys (localStorage (signOut None False False demo_returning)) = []
   \<and> store_keys (sessionStorage (signOut None False False demo_returning)) = []
   \<and> getAuthToken demo_returning = JStr ''T''
   \<and> getAuthToken (signOut None False False demo_returning) = JNull
   \<and> Some KnownLocalKeys \<noteq> None
   \<and> store_keys (localStorage (signOut (Some KnownLocalKeys) False False demo_returning))
       = [''login_hint'']
   \<and> getAuthToken (signOut (Some KnownLocalKeys) False False demo_returning) = JNull"
proof -
  have a: "store_keys (localStorage (signOut None False False demo_returning)) = []"
    by code_simp
  have b: "store_keys (sessionStorage (signOut None False False demo_returning)) = []"
    by code_simp
  have c: "getAuthToken demo_returning = JStr ''T''"
    by code_simp
  have d: "store_keys (localStorage (signOut (Some KnownLocalKeys) False False demo_returning))
             = [''login_hint'']"
    by code_simp
  show ?thesis
    using signOut_purges_credentials [of None False False demo_returning]
          signOut_purges_credentials [of "Some KnownLocalKeys" False False demo_returning] a b c d
    by simp
qed

text \<open>
  C1 as stated fails on the fallback path: when the exception escapes at the first stage
  and the fallback's own sweep succeeds, the durable key \<open>login_hint\<close> and the volatile
  key \<open>aditi_tab_id\<close> remain, and both match the credential vocabulary.
\<close>

theorem fallback_leaves_matching_keys:
  "store_keys (localStorage (signOut (Some KnownLocalKeys) False False demo_returning))
     = [''login_hint'']
   \<and> store_keys (sessionStorage (signOut (Some KnownLocalKeys) False False demo_returning))
       = [''aditi_tab_id'', ''returning_from_tab_switch'']
   \<and> auth_related_session ''login_hint''
   \<and> auth_related_session ''aditi_tab_id''"
  by code_simp

section \<open>The suppression window\<close>

lemma keeps_marks_refl: "keeps_marks s s"
  by (simp add: keeps_marks_def)

lemma keeps_marks_trans: "keeps_marks s s' \<Longrightarrow> keeps_marks s' s'' \<Longrightarrow> keeps_marks s s''"
  by (auto simp: keeps_marks_def)

lemma TAB_ID_KEY_not_flag: "RETURNING_FLAG \<noteq> TAB_ID_KEY \<and> RETURNING_FLAG \<noteq> PREVENT_REFRESH"
  by (simp add: RETURNING_FLAG_def TAB_ID_KEY_def PREVENT_REFRESH_def)

lemma saveTabState_frame:
  "\<exists>ls ss. saveTabState extra b = b\<lparr>localStorage := ls, sessionStorage := ss\<rparr>
      \<and> (\<forall>k. k \<noteq> TAB_ID_KEY \<longrightarrow> getItem k ss = getItem k (sessionStorage b))"
proof (cases "has_window b")
  case False
  have "saveTabState extra b = b\<lparr>localStorage := localStorage b, sessionStorage := sessionStorage b\<rparr>"
    using False by (simp add: saveTabState_def)
  then show ?thesis by blast
next
  case True
  from getTabId_cases [OF True] obtain t ss where
    t: "getTabId b = (t, b\<lparr>sessionStorage := ss\<rparr>)"
       "\<forall>k. k \<noteq> TAB_ID_KEY \<longrightarrow> getItem k ss = getItem k (sessionStorage b)"
    by blast
  show ?thesis
  proof (cases "localStorage_full b")
    case full: True
    have "saveTabState extra b = b\<lparr>localStorage := localStorage b, sessionStorage := ss\<rparr>"
      using True full by (simp add: saveTabState_def tabState_of_def t local_setItem_def)
    with t(2) show ?thesis by blast
  next
    case free: False
    have "saveTabState extra b
            = b\<lparr>localStorage := setItem TAB_STATE_KEY (JsonText (JObj (saved_fields b extra)))
                                  (localStorage b),
                sessionStorage := ss\<rparr>"
      using True free
      by (simp add: saveTabState_def tabState_of_def t local_setItem_def JSON_stringify_def
            saved_fields_def fresh_fields_def)
    with t(2) show ?thesis by blast
  qed
qed

lemma saveTabState_keeps: "keeps_marks b (saveTabState extra b)"
proof -
  from saveTabState_frame [of extra b] obtain ls ss where
    f: "saveTabState extra b = b\<lparr>localStorage := ls, sessionStorage := ss\<rparr>"
       "\<forall>k. k \<noteq> TAB_ID_KEY \<longrightarrow> getItem k ss = getItem k (sessionStorage b)"
    by blast
  show ?thesis
    using f(2) TAB_ID_KEY_not_flag by (simp add: keeps_marks_def f(1))
qed

lemma saveTabState_visible: "visible (saveTabState extra b) = visible b"
proof -
  from saveTabState_frame [of extra b] obtain ls ss where
    f: "saveTabState extra b = b\<lparr>localStorage := ls, sessionStorage := ss\<rparr>"
    by blast
  show ?thesis by (simp add: f)
qed

lemma setTimeout_keeps: "keeps_marks b (setTimeout cb d b)"
  by (auto simp: keeps_marks_def setTimeout_def)

lemma util_listener_keeps: "keeps_marks b (util_visibility_listener b)"
  unfolding util_visibility_listener_def
  using keeps_marks_trans [OF saveTabState_keeps setTimeout_keeps] saveTabState_keeps
  by simp

lemma util_listener_visible: "visible (util_visibility_listener b) = visible b"
  by (simp add: util_visibility_listener_def setTimeout_def saveTabState_visible)

lemma util_listener_timer:
  assumes "visible b"
  shows "(clock b + 2500, ClearReturning) \<in> set (timers (util_visibility_listener b))"
proof -
  have "clock (saveTabState [(''lastVisible'', JNum (int (clock b)))] b) = clock b"
    using saveTabState_keeps [of b] by (simp add: keeps_marks_def)
  with assms show ?thesis
    by (simp add: util_visibility_listener_def setTimeout_def)
qed

lemma util_listeners_keeps:
  "keeps_marks b ((util_visibility_listener ^^ n) b)
   \<and> visible ((util_visibility_listener ^^ n) b) = visible b"
proof (induction n)
  case 0
  then show ?case by (simp add: keeps_marks_refl)
next
  case (Suc n)
  then show ?case
    using keeps_marks_trans [OF _ util_listener_keeps] util_listener_visible by simp
qed

lemma util_listeners_timer:
  assumes "visible b" and "0 < n"
  shows "(clock b + 2500, ClearReturning) \<in> set (timers ((util_visibility_listener ^^ n) b))"
proof -
  from assms(2) obtain m where n: "n = Suc m" by (cases n) auto
  let ?s = "(util_visibility_listener ^^ m) b"
  from util_listeners_keeps [of b m] assms(1)
  have v: "visible ?s" and c: "clock ?s = clock b"
    by (simp_all add: keeps_marks_def)
  from util_listener_timer [OF v] show ?thesis by (simp add: n c)
qed

lemma restore_identity_keeps:
  "keeps_marks b1
     (case getItem k (localStorage b1) of
        None \<Rightarrow> b1
      | Some cachedUser \<Rightarrow>
          if stored_truthy cachedUser \<and> \<not> truthy (user b1) then
            (case JSON_parse cachedUser of None \<Rightarrow> b1 | Some u \<Rightarrow> b1\<lparr>user := u\<rparr>)
          else b1)"
  by (simp add: keeps_marks_def split: option.splits)

lemma handleVisibilityChange_keeps: "keeps_marks b (handleVisibilityChange b)"
proof (cases "visible b")
  case True
  let ?b1 = "saveTabState [(''hasAuth'', JBool (truthy (user b))),
                           (''authTimestamp'', JNum (int (clock b))),
                           (''userEmail'', email_of (user b))] b"
  let ?b2 = "case getItem USER_CACHE_KEY (localStorage ?b1) of
               None \<Rightarrow> ?b1
             | Some cachedUser \<Rightarrow>
                 if stored_truthy cachedUser \<and> \<not> truthy (user ?b1) then
                   (case JSON_parse cachedUser of None \<Rightarrow> ?b1 | Some u \<Rightarrow> ?b1\<lparr>user := u\<rparr>)
                 else ?b1"
  have h: "handleVisibilityChange b = setTimeout (Revalidate (user b)) 500 ?b2"
    using True by (simp only: handleVisibilityChange_def Let_def if_True)
  have "keeps_marks b ?b1" by (rule saveTabState_keeps)
  moreover have "keeps_marks ?b1 ?b2" by (rule restore_identity_keeps)
  moreover have "keeps_marks ?b2 (setTimeout (Revalidate (user b)) 500 ?b2)"
    by (rule setTimeout_keeps)
  ultimately show ?thesis
    unfolding h by (blast intro: keeps_marks_trans)
next
  case False
  then show ?thesis
    by (simp add: handleVisibilityChange_def saveTabState_keeps keeps_marks_refl)
qed

lemma visibilitychange_keeps: "keeps_marks (b\<lparr>visible := v\<rparr>) (visibilitychange v b)"
  unfolding visibilitychange_def
  using util_listeners_keeps [of "b\<lparr>visible := v\<rparr>" "visibility_listeners b"]
        handleVisibilityChange_keeps keeps_marks_trans
  by blast

lemma preventNextTabSwitchRefresh_keeps: "keeps_marks b (preventNextTabSwitchRefresh b)"
proof (cases "has_window b")
  case False
  then show ?thesis by (simp add: preventNextTabSwitchRefresh_def keeps_marks_refl)
next
  case True
  let ?b1 = "b\<lparr>sessionStorage := setItem PREVENT_REFRESH (decimal (clock b)) (sessionStorage b)\<rparr>"
  have w1: "has_window ?b1" using True by simp
  from getTabId_cases [OF w1] obtain t ss where
    t: "getTabId ?b1 = (t, ?b1\<lparr>sessionStorage := ss\<rparr>)"
       "\<forall>k. k \<noteq> TAB_ID_KEY \<longrightarrow> getItem k ss = getItem k (sessionStorage ?b1)"
    by blast
  from t(2) TAB_ID_KEY_not_flag
  have g: "getItem RETURNING_FLAG ss = getItem RETURNING_FLAG (sessionStorage b)"
    by (simp add: getItem_setItem_other)
  show ?thesis
    using True g
    by (auto simp: preventNextTabSwitchRefresh_def t(1) local_setItem_def setTimeout_def
          keeps_marks_def Let_def)
qed

lemma updateUserData_keeps: "keeps_marks b (updateUserData dir authUser showLoading b)"
  by (simp add: updateUserData_def Let_def keeps_marks_def local_setItem_def
        split: option.splits)

lemma checkSessionQuietly_keeps: "keeps_marks b (checkSessionQuietly dir captured outcome b)"
  using updateUserData_keeps [of b dir _ False]
  by (auto simp: checkSessionQuietly_def keeps_marks_def
        split: getSession_outcome.splits option.splits session.splits)

lemma keeps_marks_clearing:
  assumes "keeps_marks s s'" and "clearing_on_time T s"
  shows "clearing_on_time T s'"
  using assms by (auto simp: keeps_marks_def clearing_on_time_def returning_cleared_def)

lemma run_callback_cleared:
  "returning_cleared s \<or> cb = ClearReturning \<Longrightarrow> returning_cleared (run_callback cb s)"
  using TAB_ID_KEY_not_flag
  by (cases cb)
     (auto simp: returning_cleared_def getItem_removeItem getItem_removeItem_other)

lemma run_callbacks:
  "clock (foldl (\<lambda>s cb. run_callback cb s) s0 cbs) = clock s0
   \<and> timers (foldl (\<lambda>s cb. run_callback cb s) s0 cbs) = timers s0
   \<and> (returning_cleared s0 \<or> ClearReturning \<in> set cbs
        \<longrightarrow> returning_cleared (foldl (\<lambda>s cb. run_callback cb s) s0 cbs))"
proof (induction cbs arbitrary: s0)
  case Nil
  then show ?case by simp
next
  case (Cons cb cbs)
  have c: "clock (run_callback cb s0) = clock s0" and t: "timers (run_callback cb s0) = timers s0"
    by (cases cb; simp)+
  from Cons.IH [of "run_callback cb s0"] run_callback_cleared [of s0 cb]
  show ?case by (auto simp: c t)
qed

lemma elapse_clearing:
  assumes "clearing_on_time T s"
  shows "clearing_on_time T (elapse d s)"
proof -
  let ?now = "clock s + d"
  let ?due = "filter (\<lambda>t. fst t \<le> ?now) (timers s)"
  let ?rest = "filter (\<lambda>t. \<not> fst t \<le> ?now) (timers s)"
  let ?s0 = "s\<lparr>clock := ?now, timers := ?rest\<rparr>"
  let ?cbs = "map snd (sort_key fst ?due)"
  have e: "elapse d s = foldl (\<lambda>s cb. run_callback cb s) ?s0 ?cbs"
    by (simp add: elapse_def Let_def)
  from run_callbacks [of ?s0 ?cbs]
  have c: "clock (elapse d s) = ?now" and t: "timers (elapse d s) = ?rest"
    and r: "returning_cleared ?s0 \<or> ClearReturning \<in> set ?cbs \<Longrightarrow> returning_cleared (elapse d s)"
    unfolding e by simp_all
  show ?thesis
  proof (cases "returning_cleared s")
    case True
    then have "returning_cleared ?s0" by (simp add: returning_cleared_def)
    with r show ?thesis by (simp add: clearing_on_time_def)
  next
    case False
    with assms obtain d0 where
      p: "clock s < T" "d0 \<le> T" "(d0, ClearReturning) \<in> set (timers s)"
      by (auto simp: clearing_on_time_def)
    show ?thesis
    proof (cases "d0 \<le> ?now")
      case True
      with p(3) have "(d0, ClearReturning) \<in> set ?due" by simp
      then have "ClearReturning \<in> set ?cbs" by force
      with r show ?thesis by (simp add: clearing_on_time_def)
    next
      case False
      with p(3) have "(d0, ClearReturning) \<in> set ?rest" by simp
      moreover from False p(2) have "?now < T" by simp
      ultimately show ?thesis
        using p(2) by (auto simp: clearing_on_time_def c t)
    qed
  qed
qed

lemma step_clearing:
  assumes "clearing_on_time T s"
  shows "clearing_on_time T (step e s)"
proof (cases e)
  case Show
  have "clearing_on_time T (s\<lparr>visible := True\<rparr>)"
    using assms by (simp add: clearing_on_time_def returning_cleared_def)
  from keeps_marks_clearing [OF visibilitychange_keeps this] show ?thesis by (simp add: Show)
next
  case Hide
  have "clearing_on_time T (s\<lparr>visible := False\<rparr>)"
    using assms by (simp add: clearing_on_time_def returning_cleared_def)
  from keeps_marks_clearing [OF visibilitychange_keeps this] show ?thesis by (simp add: Hide)
next
  case (Elapse d)
  from elapse_clearing [OF assms] show ?thesis by (simp add: Elapse)
next
  case PreventCall
  from keeps_marks_clearing [OF preventNextTabSwitchRefresh_keeps assms]
  show ?thesis by (simp add: PreventCall)
next
  case (SessionAnswer dir outcome)
  show ?thesis
  proof (cases "revalidating s")
    case Nil
    with assms show ?thesis by (simp add: SessionAnswer)
  next
    case (Cons captured waiting)
    have "clearing_on_time T (s\<lparr>revalidating := waiting\<rparr>)"
      using assms by (simp add: clearing_on_time_def returning_cleared_def)
    from keeps_marks_clearing [OF checkSessionQuietly_keeps this]
    show ?thesis by (simp add: SessionAnswer Cons)
  qed
qed

lemma run_events_clearing:
  "clearing_on_time T s \<Longrightarrow> clearing_on_time T (run_events es s)"
  unfolding run_events_def
  by (induction es arbitrary: s) (simp_all add: step_clearing)

lemma show_starts_window:
  assumes "0 < visibility_listeners b"
  shows "clearing_on_time (clock b + 2500) (step Show b)"
proof -
  let ?b = "b\<lparr>visible := True\<rparr>"
  let ?s = "(util_visibility_listener ^^ visibility_listeners b) ?b"
  have "(clock ?b + 2500, ClearReturning) \<in> set (timers ?s)"
    by (rule util_listeners_timer) (simp_all add: assms)
  moreover have "keeps_marks ?s (handleVisibilityChange ?s)"
    by (rule handleVisibilityChange_keeps)
  moreover have "keeps_marks ?b ?s"
    using util_listeners_keeps [of ?b "visibility_listeners b"] by simp
  ultimately have "(clock b + 2500, ClearReturning) \<in> set (timers (step Show b))"
    and "clock (step Show b) = clock b"
    by (auto simp: keeps_marks_def visibilitychange_def)
  then show ?thesis by (auto simp: clearing_on_time_def)
qed

text \<open>
  C7, as amended. With the visibility listener of \<open>applySwitchPreventionToFetch\<close>
  registered, take any state of the tab and a show event, followed by any sequence of show
  and hide events, passing time, calls of \<open>preventNextTabSwitchRefresh\<close> and answers to
  session checks (or none: an answer may never arrive). Once 2.5 s have passed since the
  show event, the flag \<open>returning_from_tab_switch\<close> is absent from the volatile store and
  the class \<open>tab-just-activated\<close> is absent from the body. The flag \<open>prevent_auto_refresh\<close>
  is not part of this: that timer does not touch it.
\<close>

theorem returning_marks_cleared_in_window:
  assumes "0 < visibility_listeners b"
    and "clock b + 2500 \<le> clock (run_events es (step Show b))"
  shows "getItem RETURNING_FLAG (sessionStorage (run_events es (step Show b))) = None
       \<and> TAB_ACTIVE_CLASS \<notin> set (body_classes (run_events es (step Show b)))"
proof -
  from run_events_clearing [OF show_starts_window [OF assms(1)], of es] assms(2)
  show ?thesis by (simp add: clearing_on_time_def returning_cleared_def)
qed

theorem returning_marks_cleared_in_window_witness:
  "0 < visibility_listeners demo_returning
   \<and> clock demo_returning + 2500
       \<le> clock (run_events [Hide, Elapse 1000, Show, Elapse 1500] (step Show demo_returning))
   \<and> getItem RETURNING_FLAG (sessionStorage demo_returning) = Some ''true''
   \<and> getItem RETURNING_FLAG
        (sessionStorage (run_events [Hide, Elapse 1000, Show, Elapse 1500] (step Show demo_returning)))
       = None
   \<and> TAB_ACTIVE_CLASS \<in> set (body_classes demo_returning)
   \<and> TAB_ACTIVE_CLASS
       \<notin> set (body_classes (run_events [Hide, Elapse 1000, Show, Elapse 1500]
                               (step Show demo_returning)))"
proof -
  have h1: "0 < visibility_listeners demo_returning" by code_simp
  have h2: "clock demo_returning + 2500
              \<le> clock (run_events [Hide, Elapse 1000, Show, Elapse 1500] (step Show demo_returning))"
    by code_simp
  have a: "getItem RETURNING_FLAG (sessionStorage demo_returning) = Some ''true''" by code_simp
  have b: "TAB_ACTIVE_CLASS \<in> set (body_classes demo_returning)" by code_simp
  show ?thesis
    using returning_marks_cleared_in_window [OF h1 h2] h1 h2 a b by simp
qed

text \<open>
  C7 as stated fails for \<open>prevent_auto_refresh\<close>: set by \<open>preventNextTabSwitchRefresh\<close> at
  time 1000, it is still in the volatile store 2.5 s after the show event that follows; its
  own timer removes it at 6000.
\<close>

theorem prevent_flag_outlives_window:
  "getItem PREVENT_REFRESH
     (sessionStorage (run_events [Elapse 2500] (step Show (preventNextTabSwitchRefresh demo_returning))))
     = Some ''1000''
   \<and> clock (run_events [Elapse 2500] (step Show (preventNextTabSwitchRefresh demo_returning))) = 3500
   \<and> getItem PREVENT_REFRESH
       (sessionStorage (run_events [Elapse 5000] (step Show (preventNextTabSwitchRefresh demo_returning))))
       = None"
  by code_simp

text \<open>
  The scenario of a tab switch on the demo tab: \<open>isReturningFromTabSwitch\<close> is true right
  after the return and false once the window has passed.
\<close>

lemma isReturningFromTabSwitch_scenario:
  "isReturningFromTabSwitch (step Show demo_returning)
   \<and> \<not> isReturningFromTabSwitch (run_events [Elapse 2500] (step Show demo_returning))"
  by code_simp

end
